theory Spec2Isabelle
  imports Main
begin

section \<open>Values, errors and the interpreter state\<close>

text \<open>
  The exceptions the modelled code can raise. \<open>FloatPath\<close> is not a Python exception: it
  marks that the source went on computing with the \<open>float('inf')\<close> coordinates of a point
  at infinity, which this integer development does not follow any further.
\<close>

datatype error =
    ZeroDivisionError
  | ValueError
  | UnboundLocalError
  | AttributeError
  | RecursionError
  | NoCurveException
  | FloatPath


text \<open>
  Python objects have an identity. The class \<open>Point\<close> defines no \<open>__eq__\<close>, so \<open>==\<close> on two
  points is the default comparison of \<open>object\<close>: it is true exactly when both operands are the
  same object. The state therefore carries the identity the next allocated object receives,
  and the position in the stream of random draws.
\<close>

record world =
  next_oid :: nat
  rng_pos :: nat

type_synonym 'a run = "world \<Rightarrow> error + ('a \<times> world)"

definition ret :: "'a \<Rightarrow> 'a run" where
  "ret v w = Inr (v, w)"

definition raise :: "error \<Rightarrow> 'a run" where
  "raise e w = Inl e"

definition bnd :: "'a run \<Rightarrow> ('a \<Rightarrow> 'b run) \<Rightarrow> 'b run" where
  "bnd m f w = (case m w of Inl e \<Rightarrow> Inl e | Inr (v, w') \<Rightarrow> f v w')"

definition lift :: "error + 'a \<Rightarrow> 'a run" where
  "lift r w = (case r of Inl e \<Rightarrow> Inl e | Inr v \<Rightarrow> Inr (v, w))"

text \<open>What a run returned, without the final state.\<close>

definition result :: "error + ('a \<times> world) \<Rightarrow> error + 'a" where
  "result r = (case r of Inl e \<Rightarrow> Inl e | Inr (v, w) \<Rightarrow> Inr v)"

section \<open>Point.py\<close>

text \<open>
  A coordinate is an integer, or the \<open>float('inf')\<close> that the constructor stores in a point
  at infinity.
\<close>

datatype coord = Fin int | Infinity

record point =
  oid :: nat
  P_ID :: bool
  P_x :: coord
  P_y :: coord
  P_modulus :: int

text \<open>
  \<open>Point.__init__\<close>: a new object; \<open>x % modulus\<close> raises for a zero modulus, and is not
  evaluated when \<open>ID\<close> is set.
\<close>

definition Point :: "int \<Rightarrow> int \<Rightarrow> int \<Rightarrow> bool \<Rightarrow> point run" where
  "Point x y modulus ID w =
     (if ID
      then Inr (\<lparr>oid = next_oid w, P_ID = True, P_x = Infinity, P_y = Infinity,
                 P_modulus = modulus\<rparr>,
                w\<lparr>next_oid := Suc (next_oid w)\<rparr>)
      else if modulus = 0 then Inl ZeroDivisionError
      else Inr (\<lparr>oid = next_oid w, P_ID = False, P_x = Fin (x mod modulus),
                 P_y = Fin (y mod modulus), P_modulus = modulus\<rparr>,
                w\<lparr>next_oid := Suc (next_oid w)\<rparr>))"

text \<open>The operator \<open>==\<close> on two points: identity of objects.\<close>

definition py_eq :: "point \<Rightarrow> point \<Rightarrow> bool" where
  "py_eq P Q = (oid P = oid Q)"

text \<open>The property \<open>Point.inverse\<close>.\<close>

definition inverseP :: "point \<Rightarrow> point run" where
  "inverseP P =
     (if P_ID P then Point 0 0 1 True
      else (case (P_x P, P_y P) of
              (Fin xv, Fin yv) \<Rightarrow>
                (let newY = (if yv \<noteq> 0 then P_modulus P - yv else 0)
                 in Point xv newY (P_modulus P) False)
            | _ \<Rightarrow> raise FloatPath))"

text \<open>
  The module-level \<open>identity = Point(ID=True)\<close>: the first object allocated, so every
  state the code runs in has \<open>next_oid\<close> at least 1.
\<close>

definition identity :: point where
  "identity = \<lparr>oid = 0, P_ID = True, P_x = Infinity, P_y = Infinity, P_modulus = 1\<rparr>"

definition world0 :: world where
  "world0 = \<lparr>next_oid = 1, rng_pos = 0\<rparr>"

section \<open>helperFuncs.py\<close>


text \<open>
  The \<open>while n != 0\<close> loop of \<open>extGCD\<close>. One pass performs
  \<open>(q, n), m = divmod(m, n), n\<close> and then updates both coefficient pairs.
  Python's \<open>divmod\<close> on integers is floor division, as \<open>div\<close> and \<open>mod\<close> on \<open>int\<close> are.
\<close>

function extGCD_loop :: "int \<Rightarrow> int \<Rightarrow> int \<Rightarrow> int \<Rightarrow> int \<Rightarrow> int \<Rightarrow> int \<times> int \<times> int" where
  "extGCD_loop n m prevX x prevY y =
     (if n \<noteq> 0
      then extGCD_loop (m mod n) n x (prevX - (m div n) * x) y (prevY - (m div n) * y)
      else (prevX, prevY, m))"
  by pat_completeness auto
termination
  by (relation "measure (\<lambda>(n, m, prevX, x, prevY, y). nat \<bar>n\<bar>)")
     (auto simp: abs_mod_less)

definition extGCD :: "int \<Rightarrow> int \<Rightarrow> int \<times> int \<times> int" where
  "extGCD n m = extGCD_loop n m 0 1 1 0"

text \<open>
  \<open>modInv\<close> returns the pair \<open>(exists, res)\<close>; \<open>n %= m\<close> raises for \<open>m = 0\<close>.
\<close>

definition modInv :: "int \<Rightarrow> int \<Rightarrow> error + (bool \<times> int)" where
  "modInv n m =
     (if m = 0 then Inl ZeroDivisionError
      else (case extGCD (n mod m) m of
              (n', _, gcf) \<Rightarrow> if gcf \<noteq> 1 then Inr (False, gcf) else Inr (True, n' mod m)))"

text \<open>
  \<open>factorial\<close> recurses without end below zero, which the interpreter stops with a
  \<open>RecursionError\<close>. (The interpreter's recursion limit for large arguments is not modelled.)
\<close>

function factorial :: "int \<Rightarrow> error + int" where
  "factorial n =
     (if n < 0 then Inl RecursionError
      else if n = 0 \<or> n = 1 then Inr 1
      else (case factorial (n - 1) of Inl e \<Rightarrow> Inl e | Inr r \<Rightarrow> Inr (n * r)))"
  by pat_completeness auto
termination
  by (relation "measure nat") auto

definition isSmooth :: "int \<Rightarrow> int \<Rightarrow> int \<Rightarrow> error + bool" where
  "isSmooth a b m =
     (let negDisc = 64 * a ^ 3 + 432 * b ^ 2
      in if m = 0 then Inl ZeroDivisionError else Inr (negDisc mod m \<noteq> 0))"

definition modularSlope :: "point \<Rightarrow> point \<Rightarrow> error + (bool \<times> int)" where
  "modularSlope P Q =
     (case (P_x P, P_y P, P_x Q, P_y Q) of
        (Fin px, Fin py, Fin qx, Fin qy) \<Rightarrow>
          (let dy = qy - py; dx = qx - px; modulus = P_modulus P
           in case modInv dx modulus of
                Inl e \<Rightarrow> Inl e
              | Inr (exists, dxInv) \<Rightarrow>
                  if exists then Inr (True, (dy * dxInv) mod modulus) else Inr (False, dxInv))
      | _ \<Rightarrow> Inl FloatPath)"

text \<open>
  \<open>isCurveInd\<close>: \<open>or\<close> and \<open>and\<close> evaluate from the left and stop early, so \<open>Q.inverse\<close> is
  built only when neither point is the point at infinity.
\<close>

definition isCurveInd :: "point \<Rightarrow> point \<Rightarrow> int \<Rightarrow> bool run" where
  "isCurveInd P Q k =
     (if P_ID P \<or> P_ID Q then ret (k \<in> {-1, 0, 1})
      else bnd (inverseP Q) (\<lambda>Qi. ret (py_eq P Qi \<and> k \<in> {-1, 0, 1})))"

text \<open>
  \<open>resCurveInd\<close>: \<open>res\<close> is unassigned (\<open>None\<close>) when no branch of the chain matches, and
  \<open>return res\<close> then raises \<open>UnboundLocalError\<close>.
\<close>

definition resCurveInd :: "point \<Rightarrow> point \<Rightarrow> int \<Rightarrow> point run" where
  "resCurveInd P Q k =
     bnd (if P_ID Q \<and> k = 1 then ret (Some P)
          else bnd (inverseP Q) (\<lambda>Qi.
                 if py_eq P Qi \<or> k = 0 then ret (Some identity)
                 else if k = -1 then bnd (inverseP P) (\<lambda>Pi. ret (Some Pi))
                 else ret None))
         (\<lambda>res. case (if P_ID P then Some Q else res) of
                   None \<Rightarrow> raise UnboundLocalError
                 | Some r \<Rightarrow> ret r)"

section \<open>EllipticCurve.py\<close>

record curve =
  EC_a :: int
  EC_b :: int
  EC_modulus :: int

definition EC :: "int \<Rightarrow> int \<Rightarrow> int \<Rightarrow> error + curve" where
  "EC a b modulus =
     (if modulus = 0 then Inl ZeroDivisionError
      else Inr \<lparr>EC_a = a mod modulus, EC_b = b mod modulus, EC_modulus = modulus\<rparr>)"

text \<open>
  The second component of the pairs \<open>(exists, res)\<close> that \<open>double\<close>, \<open>add\<close> and \<open>mult\<close>
  return is a point or an integer.
\<close>

datatype val = Pt point | Num int

definition tangent :: "curve \<Rightarrow> point \<Rightarrow> error + (bool \<times> int)" where
  "tangent c P =
     (case (P_x P, P_y P) of
        (Fin px, Fin py) \<Rightarrow>
          (if EC_modulus c = 0 then Inl ZeroDivisionError
           else (let dx = (3 * px ^ 2 + EC_a c) mod EC_modulus c; dy = 2 * py
                 in case modInv dy (EC_modulus c) of
                      Inl e \<Rightarrow> Inl e
                    | Inr (exists, dyInv) \<Rightarrow>
                        if exists then Inr (True, (dx * dyInv) mod EC_modulus c)
                        else Inr (False, dyInv)))
      | _ \<Rightarrow> Inl FloatPath)"

definition add_sumExists :: "curve \<Rightarrow> point \<Rightarrow> point \<Rightarrow> int \<Rightarrow> point run" where
  "add_sumExists c P Q slope =
     (case (P_x P, P_y P, P_x Q) of
        (Fin px, Fin py, Fin qx) \<Rightarrow>
          (let resX = slope ^ 2 - px - qx; resY = slope * (px - resX) - py
           in Point resX resY (EC_modulus c) False)
      | _ \<Rightarrow> raise FloatPath)"

definition double :: "curve \<Rightarrow> point \<Rightarrow> (bool \<times> val) run" where
  "double c P =
     bnd (inverseP P) (\<lambda>Pi.
       if py_eq P Pi then ret (True, Pt identity)
       else bnd (lift (tangent c P)) (\<lambda>(exists, tangentAttempt).
              if exists then bnd (add_sumExists c P P tangentAttempt) (\<lambda>R. ret (True, Pt R))
              else ret (False, Num tangentAttempt)))"

definition add :: "curve \<Rightarrow> point \<Rightarrow> point \<Rightarrow> (bool \<times> val) run" where
  "add c P Q =
     (if py_eq P Q then double c P
      else bnd (isCurveInd P Q 1) (\<lambda>ind.
             if ind then bnd (resCurveInd P Q 1) (\<lambda>R. ret (True, Pt R))
             else bnd (lift (modularSlope P Q)) (\<lambda>(exists, slopeAttempt).
                    if exists then bnd (add_sumExists c P Q slopeAttempt) (\<lambda>R. ret (True, Pt R))
                    else ret (False, Num slopeAttempt))))"

text \<open>
  \<open>bin(k)[:1:-1]\<close> for \<open>k \<ge> 0\<close>: the binary digits of \<open>k\<close>, least significant first.
\<close>

fun bin_rev :: "nat \<Rightarrow> string" where
  "bin_rev n =
     (if n < 2 then [if n = 1 then CHR ''1'' else CHR ''0'']
      else (if odd n then CHR ''1'' else CHR ''0'') # bin_rev (n div 2))"

text \<open>
  The variables \<open>P\<close> and \<open>res\<close> of the loop in \<open>mult\<close> hold whatever \<open>double\<close> and \<open>add\<close>
  returned, a point or an integer; using an integer as a point raises \<open>AttributeError\<close>.
\<close>

definition double_v :: "curve \<Rightarrow> val \<Rightarrow> (bool \<times> val) run" where
  "double_v c P = (case P of Pt p \<Rightarrow> double c p | Num _ \<Rightarrow> raise AttributeError)"

definition add_v :: "curve \<Rightarrow> val \<Rightarrow> val \<Rightarrow> (bool \<times> val) run" where
  "add_v c P Q =
     (case (P, Q) of (Pt p, Pt q) \<Rightarrow> add c p q | _ \<Rightarrow> raise AttributeError)"

fun mult_loop :: "curve \<Rightarrow> string \<Rightarrow> bool \<Rightarrow> val \<Rightarrow> val \<Rightarrow> (bool \<times> val) run" where
  "mult_loop c [] exists res P = ret (exists, res)"
| "mult_loop c (digit # digits) exists res P =
     (if \<not> exists then ret (exists, res)
      else if digit = CHR ''1''
      then bnd (add_v c P res) (\<lambda>(exists', res').
             if \<not> exists' then ret (exists', res')
             else bnd (double_v c P) (\<lambda>(exists'', P'). mult_loop c digits exists'' res' P'))
      else bnd (double_v c P) (\<lambda>(exists'', P'). mult_loop c digits exists'' res P'))"

definition mult :: "curve \<Rightarrow> point \<Rightarrow> int \<Rightarrow> (bool \<times> val) run" where
  "mult c P k =
     bnd (if k < 0 then bnd (inverseP P) (\<lambda>Pi. ret (Pi, - k)) else ret (P, k))
         (\<lambda>(P', k').
            bnd (isCurveInd P' identity k') (\<lambda>ind.
              if ind then bnd (resCurveInd P' identity k') (\<lambda>R. ret (True, Pt R))
              else mult_loop c (bin_rev (nat k')) True (Pt identity) (Pt P')))"

section \<open>lenstra.py\<close>

text \<open>
  \<open>random.randint(lo, hi)\<close> raises \<open>ValueError\<close> on an empty range and otherwise returns some
  integer of \<open>[lo, hi]\<close>. The stream \<open>rng\<close> is the source of randomness: the draw at a
  position is reduced into the range, so every stream gives legal draws and every legal
  sequence of draws comes from some stream.
\<close>

definition randint :: "(nat \<Rightarrow> int) \<Rightarrow> int \<Rightarrow> int \<Rightarrow> int run" where
  "randint rng lo hi w =
     (if hi < lo then Inl ValueError
      else Inr (lo + rng (rng_pos w) mod (hi - lo + 1), w\<lparr>rng_pos := Suc (rng_pos w)\<rparr>))"

fun gen_loop :: "(nat \<Rightarrow> int) \<Rightarrow> int \<Rightarrow> nat \<Rightarrow> (point \<times> curve) run" where
  "gen_loop rng m 0 = raise NoCurveException"
| "gen_loop rng m (Suc i) =
     bnd (randint rng 0 (m - 1)) (\<lambda>s.
     bnd (randint rng 0 (m - 1)) (\<lambda>t.
     bnd (randint rng 0 (m - 1)) (\<lambda>a.
       if m = 0 then raise ZeroDivisionError
       else (let b = (t ^ 2 - s ^ 3 - a * s) mod m
             in bnd (lift (isSmooth a b m)) (\<lambda>smooth.
                  if smooth
                  then bnd (Point s t m False) (\<lambda>P.
                       bnd (lift (EC a b m)) (\<lambda>curve. ret (P, curve)))
                  else gen_loop rng m i)))))"

definition generateCurvePoint :: "(nat \<Rightarrow> int) \<Rightarrow> int \<Rightarrow> int \<Rightarrow> (point \<times> curve) run" where
  "generateCurvePoint rng m effort = gen_loop rng m (nat effort)"

fun search_loop ::
  "(nat \<Rightarrow> int) \<Rightarrow> int \<Rightarrow> int \<Rightarrow> int \<Rightarrow> nat \<Rightarrow> bool \<Rightarrow> val option \<Rightarrow> (bool \<times> val option) run" where
  "search_loop rng N num effortGen 0 searching res = ret (searching, res)"
| "search_loop rng N num effortGen (Suc i) searching res =
     (if \<not> searching then ret (searching, res)
      else bnd (generateCurvePoint rng N effortGen) (\<lambda>(P, curve).
           bnd (mult curve P num) (\<lambda>(searching', res').
             search_loop rng N num effortGen i searching' (Some res'))))"

definition lenstraFactorial :: "(nat \<Rightarrow> int) \<Rightarrow> int \<Rightarrow> int \<Rightarrow> int \<Rightarrow> int \<Rightarrow> val run" where
  "lenstraFactorial rng N bound effortObs effortGen =
     bnd (lift (factorial bound)) (\<lambda>num.
     bnd (search_loop rng N num effortGen (nat effortObs) True None) (\<lambda>(searching, res).
       if searching then ret (Num N)
       else (case res of None \<Rightarrow> raise UnboundLocalError | Some v \<Rightarrow> ret v)))"

section \<open>Notions of the specification\<close>

text \<open>
  The equality of points the specification describes (section 3): both are the point at
  infinity, or neither is and coordinates and modulus agree.
\<close>

definition same_point :: "point \<Rightarrow> point \<Rightarrow> bool" where
  "same_point P Q =
     ((P_ID P \<and> P_ID Q) \<or>
      (\<not> P_ID P \<and> \<not> P_ID Q \<and> P_x P = P_x Q \<and> P_y P = P_y Q \<and> P_modulus P = P_modulus Q))"

text \<open>
  A point object as the constructor leaves it, allocated before the state \<open>w\<close>.
\<close>

definition live_point :: "world \<Rightarrow> point \<Rightarrow> bool" where
  "live_point w P =
     (oid P < next_oid w \<and>
      (case (P_ID P, P_x P, P_y P) of
         (True, Infinity, Infinity) \<Rightarrow> True
       | (False, Fin xv, Fin yv) \<Rightarrow>
           P_modulus P \<noteq> 0 \<and> xv mod P_modulus P = xv \<and> yv mod P_modulus P = yv
       | _ \<Rightarrow> False))"

text \<open>The point satisfies the Weierstrass equation of the curve; the curve is smooth.\<close>

definition on_curve :: "curve \<Rightarrow> point \<Rightarrow> bool" where
  "on_curve c P =
     (case (P_x P, P_y P) of
        (Fin xv, Fin yv) \<Rightarrow>
          (yv ^ 2) mod EC_modulus c = (xv ^ 3 + EC_a c * xv + EC_b c) mod EC_modulus c
      | _ \<Rightarrow> False)"

definition smooth_curve :: "curve \<Rightarrow> bool" where
  "smooth_curve c = ((64 * EC_a c ^ 3 + 432 * EC_b c ^ 2) mod EC_modulus c \<noteq> 0)"

text \<open>
  Whether the sampling attempt number \<open>i\<close> (from 0) of a call that starts at position
  \<open>pos\<close> of the stream draws a smooth curve: the attempt takes three draws \<open>s\<close>, \<open>t\<close>, \<open>a\<close>
  from \<open>[0, m - 1]\<close>, which is empty below \<open>m = 1\<close>.
\<close>

definition attempt_smooth :: "(nat \<Rightarrow> int) \<Rightarrow> int \<Rightarrow> nat \<Rightarrow> nat \<Rightarrow> bool" where
  "attempt_smooth rng m pos i =
     (1 \<le> m \<and>
      (let s = rng (pos + 3 * i) mod m; t = rng (pos + 3 * i + 1) mod m;
           a = rng (pos + 3 * i + 2) mod m; b = (t ^ 2 - s ^ 3 - a * s) mod m
       in (64 * a ^ 3 + 432 * b ^ 2) mod m \<noteq> 0))"

section \<open>Properties of the modular inverse\<close>

lemma extGCD_loop_bezout:
  "extGCD_loop n m prevX x prevY y = (A, B, g) \<Longrightarrow>
   m = n0 * prevX + m0 * prevY \<Longrightarrow> n = n0 * x + m0 * y \<Longrightarrow>
   g = n0 * A + m0 * B"
proof (induction n m prevX x prevY y rule: extGCD_loop.induct)
  case (1 n m prevX x prevY y)
  show ?case
  proof (cases "n = 0")
    case True
    have "(prevX, prevY, m) = (A, B, g)"
      using "1.prems"(1) True by simp
    then have "A = prevX" "B = prevY" "g = m" by simp_all
    then show ?thesis using "1.prems"(2) by simp
  next
    case False
    have run: "extGCD_loop (m mod n) n x (prevX - (m div n) * x) y (prevY - (m div n) * y) = (A, B, g)"
      using "1.prems"(1) False by simp
    have step: "m mod n = n0 * (prevX - (m div n) * x) + m0 * (prevY - (m div n) * y)"
    proof -
      have "m mod n = m - (m div n) * n"
        by (simp add: minus_div_mult_eq_mod [symmetric])
      also have "\<dots> = (n0 * prevX + m0 * prevY) - (m div n) * (n0 * x + m0 * y)"
        using "1.prems"(2,3) by simp
      finally show ?thesis by (simp add: algebra_simps)
    qed
    show ?thesis
      by (rule "1.IH" [OF False run "1.prems"(3) step])
  qed
qed

lemma extGCD_loop_gcd:
  "extGCD_loop n m prevX x prevY y = (A, B, g) \<Longrightarrow> 0 \<le> n \<Longrightarrow> 0 \<le> m \<Longrightarrow> g = gcd n m"
proof (induction n m prevX x prevY y rule: extGCD_loop.induct)
  case (1 n m prevX x prevY y)
  show ?case
  proof (cases "n = 0")
    case True
    have "(prevX, prevY, m) = (A, B, g)"
      using "1.prems"(1) True by simp
    then have "g = m" by simp
    then show ?thesis using True "1.prems"(3) by simp
  next
    case False
    have run: "extGCD_loop (m mod n) n x (prevX - (m div n) * x) y (prevY - (m div n) * y) = (A, B, g)"
      using "1.prems"(1) False by simp
    have pos: "0 \<le> m mod n"
      using False "1.prems"(2) by simp
    have "g = gcd (m mod n) n"
      by (rule "1.IH" [OF False run pos "1.prems"(2)])
    then show ?thesis
      by (simp add: gcd.commute gcd_red_int [symmetric])
  qed
qed

lemma extGCD_spec:
  assumes "extGCD n m = (A, B, g)" and "0 \<le> n" and "0 \<le> m"
  shows "g = gcd n m" and "n * A + m * B = g"
proof -
  from assms show "g = gcd n m"
    unfolding extGCD_def by (rule extGCD_loop_gcd)
  have "g = n * A + m * B"
    using assms(1) unfolding extGCD_def by (rule extGCD_loop_bezout) simp_all
  then show "n * A + m * B = g" by simp
qed

lemma modInv_cases:
  assumes "1 < m"
  obtains (inv) A B where "extGCD (n mod m) m = (A, B, 1)" "gcd n m = 1"
      "modInv n m = Inr (True, A mod m)" "(n mod m) * A + m * B = 1"
    | (obs) "gcd n m \<noteq> 1" "modInv n m = Inr (False, gcd (n mod m) m)"
proof -
  obtain A B g where e: "extGCD (n mod m) m = (A, B, g)"
    by (cases "extGCD (n mod m) m") auto
  have nn: "0 \<le> n mod m" and mm: "0 \<le> m" using assms by simp_all
  have g: "g = gcd (n mod m) m" and bez: "(n mod m) * A + m * B = g"
    using extGCD_spec [OF e nn mm] by simp_all
  have gg: "gcd (n mod m) m = gcd n m"
    by (metis gcd.commute gcd_red_int)
  show thesis
  proof (cases "g = 1")
    case True
    show thesis
    proof (rule inv)
      show "extGCD (n mod m) m = (A, B, 1)" using e True by simp
      show "gcd n m = 1" using g gg True by simp
      show "modInv n m = Inr (True, A mod m)"
        using assms e True by (simp add: modInv_def)
      show "(n mod m) * A + m * B = 1" using bez True by simp
    qed
  next
    case False
    show thesis
    proof (rule obs)
      show "gcd n m \<noteq> 1" using g gg False by simp
      show "modInv n m = Inr (False, gcd (n mod m) m)"
        using assms e False g by (simp add: modInv_def)
    qed
  qed
qed

section \<open>Auxiliary facts about the model\<close>

lemma bnd_ret: "bnd (ret v) f = f v"
  by (rule ext) (simp add: bnd_def ret_def)

lemma bnd_assoc: "bnd (bnd m f) g = bnd m (\<lambda>v. bnd (f v) g)"
  by (rule ext) (simp add: bnd_def split: sum.splits prod.splits)

lemma inverseP_identity:
  "inverseP identity w =
     Inr (\<lparr>oid = next_oid w, P_ID = True, P_x = Infinity, P_y = Infinity, P_modulus = 1\<rparr>,
          w\<lparr>next_oid := Suc (next_oid w)\<rparr>)"
  by (simp add: inverseP_def identity_def Point_def)

lemma inverseP_live:
  assumes "live_point w P"
  obtains Pi where "inverseP P w = Inr (Pi, w\<lparr>next_oid := Suc (next_oid w)\<rparr>)"
    and "oid Pi = next_oid w" and "P_ID Pi = P_ID P"
proof (cases "P_ID P")
  case True
  then show ?thesis
    using that by (simp add: inverseP_def Point_def)
next
  case False
  with assms obtain xv yv where "P_x P = Fin xv" "P_y P = Fin yv" "P_modulus P \<noteq> 0"
    by (auto simp: live_point_def split: coord.splits bool.splits)
  with False show ?thesis
    using that by (simp add: inverseP_def Point_def Let_def)
qed

lemma modInv_zero: "1 < m \<Longrightarrow> n mod m = 0 \<Longrightarrow> modInv n m = Inr (False, m)"
  by (simp add: modInv_def extGCD_def)

text \<open>Definitions to unfold when a run is evaluated on concrete inputs.\<close>

lemmas run_defs = bnd_def ret_def raise_def lift_def result_def

lemmas point_defs = Point_def py_eq_def inverseP_def identity_def

lemmas curve_defs = modularSlope_def isCurveInd_def resCurveInd_def tangent_def
  add_sumExists_def double_def add_def double_v_def add_v_def mult_def

text \<open>The sampling loop of \<open>generateCurvePoint\<close>.\<close>

lemma weierstrass_by_construction:
  fixes s t a m :: int
  shows "((t mod m) ^ 2) mod m =
         ((s mod m) ^ 3 + (a mod m) * (s mod m) + ((t ^ 2 - s ^ 3 - a * s) mod m) mod m) mod m"
proof -
  have cube: "((s mod m) ^ 3) mod m = (s ^ 3) mod m"
    by (rule power_mod)
  have lin: "((a mod m) * (s mod m)) mod m = (a * s) mod m"
    by (rule mod_mult_eq)
  have front: "((s mod m) ^ 3 + (a mod m) * (s mod m)) mod m = (s ^ 3 + a * s) mod m"
    by (rule mod_add_cong [OF cube lin])
  have rest: "(((t ^ 2 - s ^ 3 - a * s) mod m) mod m) mod m = (t ^ 2 - s ^ 3 - a * s) mod m"
    by simp
  have "((s mod m) ^ 3 + (a mod m) * (s mod m) + ((t ^ 2 - s ^ 3 - a * s) mod m) mod m) mod m
        = (s ^ 3 + a * s + (t ^ 2 - s ^ 3 - a * s)) mod m"
    by (rule mod_add_cong [OF front rest])
  also have "\<dots> = (t ^ 2) mod m"
    by simp
  also have "\<dots> = ((t mod m) ^ 2) mod m"
    by (rule power_mod [symmetric])
  finally show ?thesis by simp
qed

lemma smooth_reduced:
  fixes a b m :: int
  shows "(64 * (a mod m) ^ 3 + 432 * (b mod m) ^ 2) mod m = (64 * a ^ 3 + 432 * b ^ 2) mod m"
proof -
  have l: "(64 * (a mod m) ^ 3) mod m = (64 * a ^ 3) mod m"
    by (rule mod_mult_cong [OF refl power_mod])
  have r: "(432 * (b mod m) ^ 2) mod m = (432 * b ^ 2) mod m"
    by (rule mod_mult_cong [OF refl power_mod])
  show ?thesis
    by (rule mod_add_cong [OF l r])
qed

lemma gen_loop_Suc:
  assumes "1 \<le> m"
  shows "gen_loop rng m (Suc i) w =
     (let s = rng (rng_pos w) mod m; t = rng (rng_pos w + 1) mod m;
          a = rng (rng_pos w + 2) mod m; b = (t ^ 2 - s ^ 3 - a * s) mod m
      in if (64 * a ^ 3 + 432 * b ^ 2) mod m \<noteq> 0
         then Inr ((\<lparr>oid = next_oid w, P_ID = False, P_x = Fin (s mod m), P_y = Fin (t mod m),
                      P_modulus = m\<rparr>,
                    \<lparr>EC_a = a mod m, EC_b = b mod m, EC_modulus = m\<rparr>),
                   w\<lparr>rng_pos := rng_pos w + 3, next_oid := Suc (next_oid w)\<rparr>)
         else gen_loop rng m i (w\<lparr>rng_pos := rng_pos w + 3\<rparr>))"
  using assms
  by (simp add: randint_def bnd_def ret_def lift_def isSmooth_def Point_def EC_def Let_def
      numeral_3_eq_3)

lemma gen_loop_nonpositive: "m < 1 \<Longrightarrow> gen_loop rng m i w = Inl (if i = 0 then NoCurveException else ValueError)"
  by (cases i) (simp_all add: raise_def randint_def bnd_def)

lemma attempt_smooth_Suc:
  "attempt_smooth rng m pos (Suc j) = attempt_smooth rng m (pos + 3) j"
proof -
  have "pos + 3 * Suc j = pos + 3 + 3 * j" by simp
  then show ?thesis
    unfolding attempt_smooth_def by (simp only:)
qed

lemma gen_loop_returns:
  "gen_loop rng m i w = Inr ((P, c), w') \<Longrightarrow>
   on_curve c P \<and> smooth_curve c \<and> EC_modulus c = m \<and> P_modulus P = m \<and> \<not> P_ID P"
proof (induction i arbitrary: w)
  case 0
  then show ?case by (simp add: raise_def)
next
  case (Suc i)
  show ?case
  proof (cases "1 \<le> m")
    case False
    then have "m < 1" by simp
    from gen_loop_nonpositive [OF this, of rng "Suc i" w] Suc.prems show ?thesis by simp
  next
    case True
    define s where "s = rng (rng_pos w) mod m"
    define t where "t = rng (rng_pos w + 1) mod m"
    define a where "a = rng (rng_pos w + 2) mod m"
    define b where "b = (t ^ 2 - s ^ 3 - a * s) mod m"
    show ?thesis
    proof (cases "(64 * a ^ 3 + 432 * b ^ 2) mod m \<noteq> 0")
      case False
      then have "gen_loop rng m (Suc i) w = gen_loop rng m i (w\<lparr>rng_pos := rng_pos w + 3\<rparr>)"
        by (simp add: gen_loop_Suc [OF True] Let_def s_def t_def a_def b_def del: gen_loop.simps)
      with Suc.prems Suc.IH show ?thesis by simp
    next
      case sm: True
      then have "gen_loop rng m (Suc i) w =
          Inr ((\<lparr>oid = next_oid w, P_ID = False, P_x = Fin (s mod m), P_y = Fin (t mod m),
                      P_modulus = m\<rparr>,
                    \<lparr>EC_a = a mod m, EC_b = b mod m, EC_modulus = m\<rparr>),
                   w\<lparr>rng_pos := rng_pos w + 3, next_oid := Suc (next_oid w)\<rparr>)"
        by (simp add: gen_loop_Suc [OF True] Let_def s_def t_def a_def b_def del: gen_loop.simps)
      with Suc.prems have P: "P = \<lparr>oid = next_oid w, P_ID = False, P_x = Fin (s mod m),
            P_y = Fin (t mod m), P_modulus = m\<rparr>"
        and c: "c = \<lparr>EC_a = a mod m, EC_b = b mod m, EC_modulus = m\<rparr>"
        by simp_all
      have "on_curve c P"
        unfolding P c on_curve_def b_def
        using weierstrass_by_construction [of t m s a] by simp
      moreover have "smooth_curve c"
        unfolding c smooth_curve_def using sm by (simp add: smooth_reduced)
      ultimately show ?thesis using P c by simp
    qed
  qed
qed

lemma gen_loop_raises_pos:
  "1 \<le> m \<Longrightarrow>
   (\<exists>e. gen_loop rng m i w = Inl e) = (\<forall>j<i. \<not> attempt_smooth rng m (rng_pos w) j)"
proof (induction i arbitrary: w)
  case 0
  then show ?case by (simp add: raise_def)
next
  case (Suc i)
  have all: "(\<forall>j<Suc i. \<not> attempt_smooth rng m (rng_pos w) j) =
      (\<not> attempt_smooth rng m (rng_pos w) 0 \<and> (\<forall>j<i. \<not> attempt_smooth rng m (rng_pos w + 3) j))"
    by (simp add: All_less_Suc2 attempt_smooth_Suc)
  show ?case
  proof (cases "attempt_smooth rng m (rng_pos w) 0")
    case True
    then have "\<exists>r. gen_loop rng m (Suc i) w = Inr r"
      using Suc.prems
      by (simp add: gen_loop_Suc [OF Suc.prems] attempt_smooth_def Let_def del: gen_loop.simps)
    with True all show ?thesis by auto
  next
    case False
    then have "gen_loop rng m (Suc i) w = gen_loop rng m i (w\<lparr>rng_pos := rng_pos w + 3\<rparr>)"
      using Suc.prems
      by (simp add: gen_loop_Suc [OF Suc.prems] attempt_smooth_def Let_def del: gen_loop.simps)
    with False all Suc.IH [OF Suc.prems, of "w\<lparr>rng_pos := rng_pos w + 3\<rparr>"] show ?thesis
      by simp
  qed
qed

lemma gen_loop_raises:
  "(\<exists>e. gen_loop rng m i w = Inl e) = (\<forall>j<i. \<not> attempt_smooth rng m (rng_pos w) j)"
proof (cases "1 \<le> m")
  case True
  then show ?thesis by (rule gen_loop_raises_pos)
next
  case False
  then have "m < 1" by simp
  from gen_loop_nonpositive [OF this, of rng i w] False show ?thesis
    by (simp add: attempt_smooth_def)
qed

section \<open>The claims\<close>

text \<open>
  C1. For all integers \<open>n\<close> and \<open>m\<close> with \<open>m > 1\<close>: if \<open>gcd n m = 1\<close> then \<open>modInv n m\<close>
  returns \<open>(True, inv)\<close> with \<open>0 \<le> inv < m\<close> and \<open>(n * inv) mod m = 1\<close>; otherwise it
  returns \<open>(False, g)\<close> with \<open>g = gcd (n mod m) m\<close> and \<open>g > 1\<close>.
\<close>

theorem modInv_correct:
  "1 < m \<Longrightarrow>
   (if gcd n m = 1
    then (\<exists>inv. modInv n m = Inr (True, inv) \<and> 0 \<le> inv \<and> inv < m \<and> (n * inv) mod m = 1)
    else modInv n m = Inr (False, gcd (n mod m) m) \<and> 1 < gcd (n mod m) m)"
proof -
  assume m: "1 < m"
  show ?thesis
  proof (rule modInv_cases [OF m, of n])
    fix A B
    assume g: "gcd n m = 1" and r: "modInv n m = Inr (True, A mod m)"
      and bez: "(n mod m) * A + m * B = 1"
    have "(n * (A mod m)) mod m = ((n mod m) * A) mod m"
      by (simp add: mod_simps)
    also have "\<dots> = ((n mod m) * A + m * B) mod m"
      by simp
    also have "\<dots> = 1"
      using bez m by simp
    finally have "(n * (A mod m)) mod m = 1" .
    moreover have "0 \<le> A mod m" "A mod m < m" using m by simp_all
    ultimately show ?thesis using g r by auto
  next
    assume g: "gcd n m \<noteq> 1" and r: "modInv n m = Inr (False, gcd (n mod m) m)"
    have gg: "gcd (n mod m) m = gcd n m"
      by (metis gcd.commute gcd_red_int)
    have "0 \<le> gcd n m" by simp
    moreover have "gcd n m \<noteq> 0" using m by simp
    ultimately have "1 < gcd n m" using g by linarith
    then show ?thesis using g r gg by simp
  qed
qed

theorem modInv_correct_witness:
  "(1::int) < 8 \<and> (\<exists>inv. modInv 3 8 = Inr (True, inv) \<and> 0 \<le> inv \<and> inv < 8 \<and> (3 * inv) mod 8 = 1)
   \<and> (1::int) < 6 \<and> modInv 2 6 = Inr (False, gcd (2 mod 6) 6) \<and> 1 < gcd ((2::int) mod 6) 6"
proof -
  have g1: "gcd (3::int) 8 = 1" by code_simp
  have g2: "gcd (2::int) 6 = 2" by code_simp
  show ?thesis
    using modInv_correct [of 8 3] modInv_correct [of 6 2] g1 g2 by simp
qed

text \<open>
  C9. At its two call sites \<open>resCurveInd\<close> always assigns its result. \<open>add\<close> calls it only
  after \<open>isCurveInd P Q\<close> has returned true, with \<open>k = 1\<close>; \<open>mult\<close> calls it only with
  \<open>Q = identity\<close> and \<open>k\<close> among \<open>-1, 0, 1\<close>. In both cases the call returns a point, so the
  \<open>UnboundLocalError\<close> of the unassigned \<open>res\<close> cannot occur. The points are objects the
  constructor built earlier.
\<close>

theorem resCurveInd_assigned:
  assumes "live_point w P" and "live_point w Q"
  shows "(isCurveInd P Q 1 w = Inr (True, w') \<longrightarrow> (\<exists>R w''. resCurveInd P Q 1 w' = Inr (R, w''))) \<and>
         (k \<in> {-1, 0, 1} \<longrightarrow> (\<exists>R w''. resCurveInd P identity k w = Inr (R, w'')))"
proof (intro conjI impI)
  assume ind: "isCurveInd P Q 1 w = Inr (True, w')"
  obtain Qi where qi: "inverseP Q w = Inr (Qi, w\<lparr>next_oid := Suc (next_oid w)\<rparr>)"
    and qo: "oid Qi = next_oid w"
    using inverseP_live [OF assms(2)] by blast
  have pl: "oid P < next_oid w" using assms(1) by (simp add: live_point_def)
  show "\<exists>R w''. resCurveInd P Q 1 w' = Inr (R, w'')"
  proof (cases "P_ID P \<or> P_ID Q")
    case True
    then have w': "w' = w" using ind by (simp add: isCurveInd_def ret_def)
    show ?thesis
    proof (cases "P_ID Q")
      case True
      then show ?thesis
        by (simp add: resCurveInd_def bnd_def ret_def)
    next
      case False
      with \<open>P_ID P \<or> P_ID Q\<close> have "P_ID P" by simp
      with False qi w' show ?thesis
        by (simp add: resCurveInd_def bnd_def ret_def)
    qed
  next
    case False
    then have "isCurveInd P Q 1 w = Inr (False, w\<lparr>next_oid := Suc (next_oid w)\<rparr>)"
      using qi qo pl by (simp add: isCurveInd_def bnd_def ret_def py_eq_def)
    with ind show ?thesis by simp
  qed
next
  assume k: "k \<in> {-1, 0, 1}"
  obtain Pi where pi: "inverseP P (w\<lparr>next_oid := Suc (next_oid w)\<rparr>) =
      Inr (Pi, w\<lparr>next_oid := Suc (Suc (next_oid w))\<rparr>)"
  proof -
    have "live_point (w\<lparr>next_oid := Suc (next_oid w)\<rparr>) P"
      using assms(1) by (auto simp: live_point_def)
    from inverseP_live [OF this] show ?thesis using that by auto
  qed
  have id: "P_ID identity" by (simp add: identity_def)
  from k consider "k = 1" | "k = 0" | "k = -1" by auto
  then show "\<exists>R w''. resCurveInd P identity k w = Inr (R, w'')"
  proof cases
    case 1
    then show ?thesis using id by (simp add: resCurveInd_def bnd_def ret_def)
  next
    case 2
    then show ?thesis
      by (simp add: resCurveInd_def bnd_def ret_def inverseP_identity)
  next
    case 3
    then show ?thesis using pi
      by (simp add: resCurveInd_def bnd_def ret_def inverseP_identity)
  qed
qed

theorem resCurveInd_assigned_witness:
  "live_point \<lparr>next_oid = 3, rng_pos = 0\<rparr>
     \<lparr>oid = 1, P_ID = False, P_x = Fin 0, P_y = Fin 1, P_modulus = 5\<rparr> \<and>
   live_point \<lparr>next_oid = 3, rng_pos = 0\<rparr>
     \<lparr>oid = 2, P_ID = True, P_x = Infinity, P_y = Infinity, P_modulus = 1\<rparr> \<and>
   isCurveInd \<lparr>oid = 1, P_ID = False, P_x = Fin 0, P_y = Fin 1, P_modulus = 5\<rparr>
     \<lparr>oid = 2, P_ID = True, P_x = Infinity, P_y = Infinity, P_modulus = 1\<rparr> 1
     \<lparr>next_oid = 3, rng_pos = 0\<rparr> = Inr (True, \<lparr>next_oid = 3, rng_pos = 0\<rparr>) \<and>
   (\<exists>R w''. resCurveInd \<lparr>oid = 1, P_ID = False, P_x = Fin 0, P_y = Fin 1, P_modulus = 5\<rparr>
     \<lparr>oid = 2, P_ID = True, P_x = Infinity, P_y = Infinity, P_modulus = 1\<rparr> 1
     \<lparr>next_oid = 3, rng_pos = 0\<rparr> = Inr (R, w'')) \<and>
   (- 1 :: int) \<in> {- 1, 0, 1} \<and>
   (\<exists>R w''. resCurveInd \<lparr>oid = 1, P_ID = False, P_x = Fin 0, P_y = Fin 1, P_modulus = 5\<rparr>
     identity (- 1) \<lparr>next_oid = 3, rng_pos = 0\<rparr> = Inr (R, w''))"
proof -
  have l1: "live_point \<lparr>next_oid = 3, rng_pos = 0\<rparr>
     \<lparr>oid = 1, P_ID = False, P_x = Fin 0, P_y = Fin 1, P_modulus = 5\<rparr>"
    by (simp add: live_point_def)
  have l2: "live_point \<lparr>next_oid = 3, rng_pos = 0\<rparr>
     \<lparr>oid = 2, P_ID = True, P_x = Infinity, P_y = Infinity, P_modulus = 1\<rparr>"
    by (simp add: live_point_def)
  have i: "isCurveInd \<lparr>oid = 1, P_ID = False, P_x = Fin 0, P_y = Fin 1, P_modulus = 5\<rparr>
     \<lparr>oid = 2, P_ID = True, P_x = Infinity, P_y = Infinity, P_modulus = 1\<rparr> 1
     \<lparr>next_oid = 3, rng_pos = 0\<rparr> = Inr (True, \<lparr>next_oid = 3, rng_pos = 0\<rparr>)"
    by (simp add: isCurveInd_def ret_def)
  show ?thesis
    using resCurveInd_assigned [OF l1 l2, of "\<lparr>next_oid = 3, rng_pos = 0\<rparr>" "- 1"] l1 l2 i
    by simp
qed

text \<open>
  C6. For every point \<open>P\<close>: \<open>mult(P, 1)\<close> returns \<open>(True, P)\<close>; \<open>mult(P, 0)\<close> returns
  \<open>(True, identity)\<close>; and for every \<open>k \<ge> 0\<close>, \<open>mult(P, -k)\<close> returns what \<open>mult(P.inverse, k)\<close>
  returns. For \<open>k = 1\<close> the object returned is \<open>P\<close> itself unless \<open>P\<close> is a point at infinity,
  in which case it is the module's \<open>identity\<close>, the same point in the sense of the
  specification.
\<close>

theorem mult_small_scalars:
  assumes "live_point w P" and "0 \<le> k"
  shows "mult c P 1 w = Inr ((True, Pt (if P_ID P then identity else P)), w) \<and>
         same_point (if P_ID P then identity else P) P \<and>
         result (mult c P 0 w) = Inr (True, Pt identity) \<and>
         result (mult c P (- k) w) = result (bnd (inverseP P) (\<lambda>Pi. mult c Pi k) w)"
proof (intro conjI)
  have id: "P_ID identity" by (simp add: identity_def)
  show "mult c P 1 w = Inr ((True, Pt (if P_ID P then identity else P)), w)"
    using id by (simp add: mult_def bnd_def ret_def isCurveInd_def resCurveInd_def)
  show "same_point (if P_ID P then identity else P) P"
    using id by (simp add: same_point_def)
  have zero: "result (mult c Q 0 v) = Inr (True, Pt identity)" for Q v
    using id
    by (simp add: mult_def bnd_def ret_def isCurveInd_def resCurveInd_def inverseP_identity
        result_def)
  show "result (mult c P 0 w) = Inr (True, Pt identity)"
    by (rule zero)
  show "result (mult c P (- k) w) = result (bnd (inverseP P) (\<lambda>Pi. mult c Pi k) w)"
  proof (cases "k = 0")
    case True
    obtain Pi where "inverseP P w = Inr (Pi, w\<lparr>next_oid := Suc (next_oid w)\<rparr>)"
      using inverseP_live [OF assms(1)] by blast
    then have "bnd (inverseP P) (\<lambda>Pi. mult c Pi k) w = mult c Pi 0 (w\<lparr>next_oid := Suc (next_oid w)\<rparr>)"
      using True by (simp add: bnd_def)
    then show ?thesis using True zero by simp
  next
    case False
    with assms(2) have pos: "0 < k" by simp
    have "mult c P (- k) = bnd (inverseP P) (\<lambda>Pi. mult c Pi k)"
      using pos by (simp add: mult_def [abs_def] bnd_assoc bnd_ret)
    then show ?thesis by simp
  qed
qed

theorem mult_small_scalars_witness:
  "live_point \<lparr>next_oid = 2, rng_pos = 0\<rparr>
     \<lparr>oid = 1, P_ID = False, P_x = Fin 0, P_y = Fin 1, P_modulus = 5\<rparr> \<and> (0::int) \<le> 3 \<and>
   mult \<lparr>EC_a = 0, EC_b = 1, EC_modulus = 5\<rparr>
     \<lparr>oid = 1, P_ID = False, P_x = Fin 0, P_y = Fin 1, P_modulus = 5\<rparr> 1
     \<lparr>next_oid = 2, rng_pos = 0\<rparr> =
     Inr ((True, Pt \<lparr>oid = 1, P_ID = False, P_x = Fin 0, P_y = Fin 1, P_modulus = 5\<rparr>),
          \<lparr>next_oid = 2, rng_pos = 0\<rparr>) \<and>
   result (mult \<lparr>EC_a = 0, EC_b = 1, EC_modulus = 5\<rparr>
     \<lparr>oid = 1, P_ID = False, P_x = Fin 0, P_y = Fin 1, P_modulus = 5\<rparr> 0
     \<lparr>next_oid = 2, rng_pos = 0\<rparr>) = Inr (True, Pt identity) \<and>
   result (mult \<lparr>EC_a = 0, EC_b = 1, EC_modulus = 5\<rparr>
     \<lparr>oid = 1, P_ID = False, P_x = Fin 0, P_y = Fin 1, P_modulus = 5\<rparr> (- 3)
     \<lparr>next_oid = 2, rng_pos = 0\<rparr>) =
   result (bnd (inverseP \<lparr>oid = 1, P_ID = False, P_x = Fin 0, P_y = Fin 1, P_modulus = 5\<rparr>)
     (\<lambda>Pi. mult \<lparr>EC_a = 0, EC_b = 1, EC_modulus = 5\<rparr> Pi 3) \<lparr>next_oid = 2, rng_pos = 0\<rparr>)"
proof -
  have l: "live_point \<lparr>next_oid = 2, rng_pos = 0\<rparr>
     \<lparr>oid = 1, P_ID = False, P_x = Fin 0, P_y = Fin 1, P_modulus = 5\<rparr>"
    by (simp add: live_point_def)
  have k: "(0::int) \<le> 3" by simp
  show ?thesis
    using mult_small_scalars [OF l k, of "\<lparr>EC_a = 0, EC_b = 1, EC_modulus = 5\<rparr>"] l
    by simp
qed

text \<open>
  C10. For every modulus \<open>m > 1\<close> and every \<open>n\<close> divisible by \<open>m\<close>, \<open>modInv n m\<close> returns
  \<open>(False, m)\<close>: the obstruction is the modulus itself, not a proper divisor. Such an
  obstruction reaches the callers: on the curve \<open>y\<^sup>2 = x\<^sup>3 + 1\<close> the secant slope and the sum of
  \<open>(0, 1)\<close> and \<open>(0, m - 1)\<close>, and the double of \<open>(m - 1, 0)\<close>, all return \<open>(False, m)\<close>, and over
  the modulus 5 so does \<open>mult((0, 1), 3)\<close>.
\<close>

theorem obstruction_is_modulus:
  assumes "1 < m" and "n mod m = 0"
  shows "modInv n m = Inr (False, m) \<and>
    modularSlope \<lparr>oid = 1, P_ID = False, P_x = Fin 0, P_y = Fin 1, P_modulus = m\<rparr>
      \<lparr>oid = 2, P_ID = False, P_x = Fin 0, P_y = Fin (m - 1), P_modulus = m\<rparr> = Inr (False, m) \<and>
    result (add \<lparr>EC_a = 0, EC_b = 1, EC_modulus = m\<rparr>
      \<lparr>oid = 1, P_ID = False, P_x = Fin 0, P_y = Fin 1, P_modulus = m\<rparr>
      \<lparr>oid = 2, P_ID = False, P_x = Fin 0, P_y = Fin (m - 1), P_modulus = m\<rparr>
      \<lparr>next_oid = 3, rng_pos = 0\<rparr>) = Inr (False, Num m) \<and>
    result (double \<lparr>EC_a = 0, EC_b = 1, EC_modulus = m\<rparr>
      \<lparr>oid = 1, P_ID = False, P_x = Fin (m - 1), P_y = Fin 0, P_modulus = m\<rparr>
      \<lparr>next_oid = 2, rng_pos = 0\<rparr>) = Inr (False, Num m) \<and>
    result (mult \<lparr>EC_a = 0, EC_b = 1, EC_modulus = 5\<rparr>
      \<lparr>oid = 1, P_ID = False, P_x = Fin 0, P_y = Fin 1, P_modulus = 5\<rparr> 3
      \<lparr>next_oid = 2, rng_pos = 0\<rparr>) = Inr (False, Num 5)"
proof (intro conjI)
  have z: "modInv 0 m = Inr (False, m)"
    using assms(1) by (simp add: modInv_zero)
  show "modInv n m = Inr (False, m)"
    using assms by (rule modInv_zero)
  show "modularSlope \<lparr>oid = 1, P_ID = False, P_x = Fin 0, P_y = Fin 1, P_modulus = m\<rparr>
      \<lparr>oid = 2, P_ID = False, P_x = Fin 0, P_y = Fin (m - 1), P_modulus = m\<rparr> = Inr (False, m)"
    using z by (simp add: modularSlope_def)
  show "result (add \<lparr>EC_a = 0, EC_b = 1, EC_modulus = m\<rparr>
      \<lparr>oid = 1, P_ID = False, P_x = Fin 0, P_y = Fin 1, P_modulus = m\<rparr>
      \<lparr>oid = 2, P_ID = False, P_x = Fin 0, P_y = Fin (m - 1), P_modulus = m\<rparr>
      \<lparr>next_oid = 3, rng_pos = 0\<rparr>) = Inr (False, Num m)"
    using z assms(1) by (simp add: add_def isCurveInd_def modularSlope_def point_defs run_defs)
  show "result (double \<lparr>EC_a = 0, EC_b = 1, EC_modulus = m\<rparr>
      \<lparr>oid = 1, P_ID = False, P_x = Fin (m - 1), P_y = Fin 0, P_modulus = m\<rparr>
      \<lparr>next_oid = 2, rng_pos = 0\<rparr>) = Inr (False, Num m)"
    using z assms(1) by (simp add: double_def tangent_def point_defs run_defs)
  show "result (mult \<lparr>EC_a = 0, EC_b = 1, EC_modulus = 5\<rparr>
      \<lparr>oid = 1, P_ID = False, P_x = Fin 0, P_y = Fin 1, P_modulus = 5\<rparr> 3
      \<lparr>next_oid = 2, rng_pos = 0\<rparr>) = Inr (False, Num 5)"
    by (simp add: curve_defs point_defs run_defs modInv_def extGCD_def)
qed

theorem obstruction_is_modulus_witness:
  "(1::int) < 15 \<and> (30::int) mod 15 = 0 \<and> modInv 30 15 = Inr (False, 15) \<and>
   result (double \<lparr>EC_a = 0, EC_b = 1, EC_modulus = 15\<rparr>
      \<lparr>oid = 1, P_ID = False, P_x = Fin (15 - 1), P_y = Fin 0, P_modulus = 15\<rparr>
      \<lparr>next_oid = 2, rng_pos = 0\<rparr>) = Inr (False, Num 15)"
  using obstruction_is_modulus [of 15 30] by simp

text \<open>
  C8. \<open>generateCurvePoint(m, effort)\<close> either raises, or returns a point and a curve over \<open>m\<close>
  such that the point satisfies the curve's equation and the curve is smooth, that is
  \<open>64 a\<^sup>3 + 432 b\<^sup>2\<close> is not 0 modulo \<open>m\<close>. It raises exactly when none of
  its \<open>effort\<close> sampling attempts draws a smooth curve.
\<close>

theorem generateCurvePoint_smooth_or_raises:
  "((\<exists>e. generateCurvePoint rng m effort w = Inl e) \<or>
    (\<exists>P c w'. generateCurvePoint rng m effort w = Inr ((P, c), w') \<and>
       on_curve c P \<and> smooth_curve c \<and> EC_modulus c = m)) \<and>
   ((\<exists>e. generateCurvePoint rng m effort w = Inl e) =
    (\<forall>j<nat effort. \<not> attempt_smooth rng m (rng_pos w) j))"
proof (intro conjI)
  show "(\<exists>e. generateCurvePoint rng m effort w = Inl e) \<or>
    (\<exists>P c w'. generateCurvePoint rng m effort w = Inr ((P, c), w') \<and>
       on_curve c P \<and> smooth_curve c \<and> EC_modulus c = m)"
  proof (cases "generateCurvePoint rng m effort w")
    case (Inl e)
    then show ?thesis by simp
  next
    case (Inr r)
    obtain P c w' where r: "r = ((P, c), w')" by (cases r) auto
    with Inr gen_loop_returns [of rng m "nat effort" w P c w'] show ?thesis
      by (simp add: generateCurvePoint_def)
  qed
next
  show "(\<exists>e. generateCurvePoint rng m effort w = Inl e) =
      (\<forall>j<nat effort. \<not> attempt_smooth rng m (rng_pos w) j)"
    unfolding generateCurvePoint_def by (rule gen_loop_raises)
qed

theorem generateCurvePoint_smooth_or_raises_witness:
  "\<not> (\<exists>e. generateCurvePoint (\<lambda>i. if i = 0 then 0 else if i = 1 then 3 else 1) 15 1 world0 = Inl e) \<and>
   \<not> (\<forall>j<nat 1. \<not> attempt_smooth (\<lambda>i. if i = 0 then 0 else if i = 1 then 3 else 1) 15
        (rng_pos world0) j)"
proof -
  have "attempt_smooth (\<lambda>i. if i = 0 then 0 else if i = 1 then 3 else 1) 15 (rng_pos world0) 0"
    by (simp add: attempt_smooth_def world0_def)
  then have "\<not> (\<forall>j<nat 1. \<not> attempt_smooth (\<lambda>i. if i = 0 then 0 else if i = 1 then 3 else 1) 15
        (rng_pos world0) j)"
    by simp
  then show ?thesis
    using generateCurvePoint_smooth_or_raises
      [of "\<lambda>i. if i = 0 then 0 else if i = 1 then 3 else 1" 15 1 world0]
    by simp
qed

text \<open>
  C2. The specification has \<open>lenstraFactorial\<close> return a proper divisor of \<open>N\<close> or \<open>N\<close> itself. For
  \<open>N = 15\<close>, \<open>bound = 2\<close>, one search attempt and the draws \<open>s = 0\<close>, \<open>t = 3\<close>, \<open>a = 1\<close>, the first
  doubling in \<open>mult\<close> meets the obstruction 3; \<open>mult\<close> stores it in \<open>P\<close>, not in \<open>res\<close>, and
  \<open>lenstraFactorial\<close> returns the point at infinity that \<open>res\<close> still holds.
\<close>

theorem lenstraFactorial_returns_point:
  "result (lenstraFactorial (\<lambda>i. if i = 0 then 0 else if i = 1 then 3 else 1) 15 2 1 1 world0)
     = Inr (Pt identity)"
  by (simp add: lenstraFactorial_def generateCurvePoint_def randint_def isSmooth_def EC_def
      run_defs point_defs curve_defs modInv_def extGCD_def world0_def)

text \<open>
  C3. The specification takes equality of points to be structural. In the code \<open>Point\<close> has no
  \<open>__eq__\<close>: two points built one after the other from the coordinates \<open>(2, 0)\<close> and the modulus
  5 are the same point in the sense of the specification, yet \<open>==\<close> on them is false.
\<close>

theorem point_eq_is_object_identity:
  "result (bnd (Point 2 0 5 False) (\<lambda>P. bnd (Point 2 0 5 False) (\<lambda>Q.
     ret (py_eq P Q, same_point P Q))) world0) = Inr (False, True)"
  by (simp add: run_defs point_defs same_point_def world0_def)

text \<open>
  C4. The specification has \<open>double(P)\<close> return \<open>(True, identity)\<close>, without a modular inversion,
  for a point that is its own inverse. On \<open>y\<^sup>2 = x\<^sup>3 + x\<close> over 5 the point \<open>(0, 0)\<close> has the same
  coordinates as its inverse, but the test \<open>P == P.inverse\<close> compares objects and is false, so
  \<open>double\<close> goes on to invert \<open>2y = 0\<close> and returns \<open>(False, 5)\<close>.
\<close>

theorem double_self_inverse_obstructed:
  "result (bnd (inverseP \<lparr>oid = 1, P_ID = False, P_x = Fin 0, P_y = Fin 0, P_modulus = 5\<rparr>) (\<lambda>Pi.
     bnd (double \<lparr>EC_a = 1, EC_b = 0, EC_modulus = 5\<rparr>
            \<lparr>oid = 1, P_ID = False, P_x = Fin 0, P_y = Fin 0, P_modulus = 5\<rparr>) (\<lambda>r.
     ret (same_point \<lparr>oid = 1, P_ID = False, P_x = Fin 0, P_y = Fin 0, P_modulus = 5\<rparr> Pi, r)))
     \<lparr>next_oid = 2, rng_pos = 0\<rparr>) = Inr (True, (False, Num 5))"
  by (simp add: run_defs point_defs curve_defs same_point_def modInv_def extGCD_def)

text \<open>
  C5. The specification has \<open>add(P, P.inverse)\<close> return \<open>(True, identity)\<close> for a point of a curve
  over a prime. For the point \<open>(0, 1)\<close> of the smooth curve \<open>y\<^sup>2 = x\<^sup>3 + x + 1\<close> over 5 the code
  returns \<open>(False, 5)\<close>: \<open>isCurveInd\<close> compares \<open>P\<close> with a fresh object, so the secant slope is
  attempted with \<open>dx = 0\<close>.
\<close>

theorem add_inverse_obstructed:
  "on_curve \<lparr>EC_a = 1, EC_b = 1, EC_modulus = 5\<rparr>
     \<lparr>oid = 1, P_ID = False, P_x = Fin 0, P_y = Fin 1, P_modulus = 5\<rparr> \<and>
   smooth_curve \<lparr>EC_a = 1, EC_b = 1, EC_modulus = 5\<rparr> \<and>
   result (bnd (inverseP \<lparr>oid = 1, P_ID = False, P_x = Fin 0, P_y = Fin 1, P_modulus = 5\<rparr>)
     (add \<lparr>EC_a = 1, EC_b = 1, EC_modulus = 5\<rparr>
        \<lparr>oid = 1, P_ID = False, P_x = Fin 0, P_y = Fin 1, P_modulus = 5\<rparr>)
     \<lparr>next_oid = 2, rng_pos = 0\<rparr>) = Inr (False, Num 5)"
  by (simp add: run_defs point_defs curve_defs on_curve_def smooth_curve_def modInv_def extGCD_def)

text \<open>
  C7. The specification has \<open>mult(P, k1 + k2)\<close> succeed with the sum of \<open>mult(P, k1)\<close> and
  \<open>mult(P, k2)\<close> over a prime modulus. For the point \<open>(0, 0)\<close> of the smooth curve \<open>y\<^sup>2 = x\<^sup>3 + x\<close>
  over 5 and \<open>k1 = k2 = 1\<close>, \<open>mult(P, 2)\<close> returns \<open>(False, identity)\<close>, while \<open>mult(P, 1)\<close> returns
  \<open>P\<close> and \<open>add(P, P)\<close> returns \<open>(False, 5)\<close>.
\<close>

theorem mult_two_torsion_fails:
  "on_curve \<lparr>EC_a = 1, EC_b = 0, EC_modulus = 5\<rparr>
     \<lparr>oid = 1, P_ID = False, P_x = Fin 0, P_y = Fin 0, P_modulus = 5\<rparr> \<and>
   smooth_curve \<lparr>EC_a = 1, EC_b = 0, EC_modulus = 5\<rparr> \<and>
   result (mult \<lparr>EC_a = 1, EC_b = 0, EC_modulus = 5\<rparr>
     \<lparr>oid = 1, P_ID = False, P_x = Fin 0, P_y = Fin 0, P_modulus = 5\<rparr> (1 + 1)
     \<lparr>next_oid = 2, rng_pos = 0\<rparr>) = Inr (False, Pt identity) \<and>
   result (mult \<lparr>EC_a = 1, EC_b = 0, EC_modulus = 5\<rparr>
     \<lparr>oid = 1, P_ID = False, P_x = Fin 0, P_y = Fin 0, P_modulus = 5\<rparr> 1
     \<lparr>next_oid = 2, rng_pos = 0\<rparr>) =
     Inr (True, Pt \<lparr>oid = 1, P_ID = False, P_x = Fin 0, P_y = Fin 0, P_modulus = 5\<rparr>) \<and>
   result (add \<lparr>EC_a = 1, EC_b = 0, EC_modulus = 5\<rparr>
     \<lparr>oid = 1, P_ID = False, P_x = Fin 0, P_y = Fin 0, P_modulus = 5\<rparr>
     \<lparr>oid = 1, P_ID = False, P_x = Fin 0, P_y = Fin 0, P_modulus = 5\<rparr>
     \<lparr>next_oid = 2, rng_pos = 0\<rparr>) = Inr (False, Num 5)"
  by (simp add: run_defs point_defs curve_defs on_curve_def smooth_curve_def modInv_def extGCD_def)

end
